theory Spec2Isabelle
  imports Main "HOL-Library.Word"
begin

section \<open>Needleman-Wunsch global alignment: the program\<close>

text \<open>
  The embedding follows \<^verbatim>\<open>main.cpp\<close>. The C++ type \<^verbatim>\<open>int\<close> is a 32-bit two's
  complement integer: scores and matrix cells are \<open>32 word\<close>, and the comparisons of the
  source (\<^verbatim>\<open>>=\<close>, \<^verbatim>\<open>std::max\<close>) read the words as signed values. The language leaves
  a signed addition that overflows undefined, so the source fixes the values of a run
  only while no addition overflows; the model wraps around there, as an unoptimised
  build on a two's complement machine does. What is proved of the values of the cells
  is therefore proved of the runs in which no addition overflows. Indices and lengths (\<^verbatim>\<open>int64_t\<close>, \<^verbatim>\<open>size_t\<close>) never go below zero in the
  source and are \<open>nat\<close>. A \<^verbatim>\<open>std::string\<close> is a \<open>string\<close>, a list of 8-bit characters.
\<close>

type_synonym c_int = "32 word"

type_synonym int_matrix = "c_int list list"

record Scoring =
  match :: c_int
  mismatch :: c_int
  gap :: c_int

definition default_scoring :: Scoring where
  "default_scoring = \<lparr>match = 1, mismatch = - 1, gap = 0\<rparr>"

record Alignment =
  seq1 :: string
  seq2 :: string
  score :: int_matrix

text \<open>The gap placeholder of the traceback, \<^verbatim>\<open>'-'\<close>.\<close>

definition gap_char :: char where
  "gap_char = CHR ''-''"

text \<open>\<^verbatim>\<open>std::max (a, b)\<close> on \<^verbatim>\<open>int\<close>: \<^verbatim>\<open>(a < b) ? b : a\<close>, a signed comparison.\<close>

definition std_max :: "c_int \<Rightarrow> c_int \<Rightarrow> c_int" where
  "std_max a b = (if word_sless a b then b else a)"

text \<open>The source's \<^verbatim>\<open>a >= b\<close> on \<^verbatim>\<open>int\<close>.\<close>

definition int_ge :: "c_int \<Rightarrow> c_int \<Rightarrow> bool" where
  "int_ge a b = word_sle b a"

text \<open>Reading and writing a cell, \<^verbatim>\<open>mat[i][j]\<close> and \<^verbatim>\<open>mat[i][j] = v\<close>.\<close>

definition cell :: "int_matrix \<Rightarrow> nat \<Rightarrow> nat \<Rightarrow> c_int" where
  "cell mat i j = mat ! i ! j"

definition set_cell :: "int_matrix \<Rightarrow> nat \<Rightarrow> nat \<Rightarrow> c_int \<Rightarrow> int_matrix" where
  "set_cell mat i j v = mat[i := (mat ! i)[j := v]]"

subsection \<open>\<^verbatim>\<open>Alignment::calc_score\<close>\<close>





subsection \<open>\<^verbatim>\<open>generateAlignmentMatrix\<close>\<close>

function init_column :: "nat \<Rightarrow> Scoring \<Rightarrow> nat \<Rightarrow> int_matrix \<Rightarrow> int_matrix" where
  "init_column m scr i mat =
     (if i \<le> m
      then init_column m scr (i + 1) (set_cell mat i 0 (cell mat (i - 1) 0 + gap scr))
      else mat)"
  by pat_completeness auto
termination
  by (relation "measure (\<lambda>(m, scr, i, mat). Suc m - i)") auto

function init_row :: "nat \<Rightarrow> Scoring \<Rightarrow> nat \<Rightarrow> int_matrix \<Rightarrow> int_matrix" where
  "init_row n scr j mat =
     (if j \<le> n
      then init_row n scr (j + 1) (set_cell mat 0 j (cell mat 0 (j - 1) + gap scr))
      else mat)"
  by pat_completeness auto
termination
  by (relation "measure (\<lambda>(n, scr, j, mat). Suc n - j)") auto

definition generateAlignmentMatrix :: "nat \<Rightarrow> nat \<Rightarrow> Scoring \<Rightarrow> int_matrix" where
  "generateAlignmentMatrix m n scr =
     (let mat = replicate (m + 1) (replicate (n + 1) 0);
          mat = init_column m scr 1 mat;
          mat = init_row n scr 1 mat
      in mat)"

subsection \<open>\<^verbatim>\<open>alignment_algorithm\<close>: filling the matrix\<close>

function fill_row :: "string \<Rightarrow> string \<Rightarrow> Scoring \<Rightarrow> nat \<Rightarrow> nat \<Rightarrow> int_matrix \<Rightarrow> int_matrix" where
  "fill_row s1 s2 scr i j mat =
     (if j \<le> length s2 then
        (let match' = cell mat (i - 1) (j - 1)
                        + (if s1 ! (i - 1) = s2 ! (j - 1) then match scr else mismatch scr);
             del = cell mat (i - 1) j + gap scr;
             ins = cell mat i (j - 1) + gap scr
         in fill_row s1 s2 scr i (j + 1) (set_cell mat i j (std_max match' (std_max del ins))))
      else mat)"
  by pat_completeness auto
termination
  by (relation "measure (\<lambda>(s1, s2, scr, i, j, mat). Suc (length s2) - j)") auto

function fill_matrix :: "string \<Rightarrow> string \<Rightarrow> Scoring \<Rightarrow> nat \<Rightarrow> int_matrix \<Rightarrow> int_matrix" where
  "fill_matrix s1 s2 scr i mat =
     (if i \<le> length s1
      then fill_matrix s1 s2 scr (i + 1) (fill_row s1 s2 scr i 1 mat)
      else mat)"
  by pat_completeness auto
termination
  by (relation "measure (\<lambda>(s1, s2, scr, i, mat). Suc (length s1) - i)") auto

subsection \<open>\<^verbatim>\<open>alignment_algorithm\<close>: the traceback\<close>

text \<open>
  The state of the traceback loops: the cursor \<open>(i, j)\<close> and the two strings \<^verbatim>\<open>al1\<close>,
  \<^verbatim>\<open>al2\<close>, which grow at the back (\<^verbatim>\<open>push_back\<close>).
\<close>

type_synonym tb_state = "nat \<times> nat \<times> string \<times> string"

text \<open>
  One run of the body of \<^verbatim>\<open>while (i > 0 && j > 0)\<close>. The source has an
  \<^verbatim>\<open>if / else if / else if\<close> chain with no final \<^verbatim>\<open>else\<close>: where no condition holds the
  state is left as it is.
\<close>

definition traceback_step :: "string \<Rightarrow> string \<Rightarrow> int_matrix \<Rightarrow> tb_state \<Rightarrow> tb_state" where
  "traceback_step s1 s2 mat st =
     (case st of (i, j, al1, al2) \<Rightarrow>
        (let diag = cell mat (i - 1) (j - 1);
             up = cell mat i (j - 1);
             left = cell mat (i - 1) j
         in if s1 ! (i - 1) = s2 ! (j - 1) \<or> (int_ge diag up \<and> int_ge diag left)
              then (i - 1, j - 1, al1 @ [s1 ! (i - 1)], al2 @ [s2 ! (j - 1)])
            else if int_ge left up \<and> int_ge left diag
              then (i - 1, j, al1 @ [s1 ! (i - 1)], al2 @ [gap_char])
            else if int_ge up left \<and> int_ge up diag
              then (i, j - 1, al1 @ [gap_char], al2 @ [s2 ! (j - 1)])
            else (i, j, al1, al2)))"

text \<open>
  The loop itself. Nothing in its shape bounds the number of iterations, so it is a
  partial function: \<open>None\<close> stands for a loop that never ends.
\<close>

partial_function (option) traceback :: "string \<Rightarrow> string \<Rightarrow> int_matrix \<Rightarrow> tb_state \<Rightarrow> tb_state option" where
  "traceback s1 s2 mat st =
     (if 0 < fst st \<and> 0 < fst (snd st)
      then traceback s1 s2 mat (traceback_step s1 s2 mat st)
      else Some st)"

declare traceback.simps [code]

text \<open>The two loops that copy the remaining characters.\<close>

function copy_remaining1 :: "string \<Rightarrow> tb_state \<Rightarrow> tb_state" where
  "copy_remaining1 s1 (i, j, al1, al2) =
     (if 0 < i then copy_remaining1 s1 (i - 1, j, al1 @ [s1 ! (i - 1)], al2 @ [gap_char])
      else (i, j, al1, al2))"
  by pat_completeness auto
termination
  by (relation "measure (\<lambda>(s1, i, j, al1, al2). i)") auto

function copy_remaining2 :: "string \<Rightarrow> tb_state \<Rightarrow> tb_state" where
  "copy_remaining2 s2 (i, j, al1, al2) =
     (if 0 < j then copy_remaining2 s2 (i, j - 1, al1 @ [gap_char], al2 @ [s2 ! (j - 1)])
      else (i, j, al1, al2))"
  by pat_completeness auto
termination
  by (relation "measure (\<lambda>(s2, i, j, al1, al2). j)") auto

definition alignment_algorithm :: "string \<Rightarrow> string \<Rightarrow> Scoring \<Rightarrow> Alignment option" where
  "alignment_algorithm s1 s2 scr =
     (let mat = generateAlignmentMatrix (length s1) (length s2) scr;
          mat = fill_matrix s1 s2 scr 1 mat
      in case traceback s1 s2 mat (length s1, length s2, [], []) of
           None \<Rightarrow> None
         | Some st \<Rightarrow>
             (case copy_remaining2 s2 (copy_remaining1 s1 st) of
                (i, j, al1, al2) \<Rightarrow> Some \<lparr>seq1 = rev al1, seq2 = rev al2, score = mat\<rparr>))"

section \<open>Notions used to state the properties\<close>

subsection \<open>The matrix\<close>

text \<open>The matrix that \<^verbatim>\<open>alignment_algorithm\<close> stores in its result.\<close>

definition filled_matrix :: "string \<Rightarrow> string \<Rightarrow> Scoring \<Rightarrow> int_matrix" where
  "filled_matrix s1 s2 scr =
     fill_matrix s1 s2 scr 1 (generateAlignmentMatrix (length s1) (length s2) scr)"

text \<open>The shape of a matrix: \<open>r\<close> rows of \<open>c\<close> cells each.\<close>

definition has_dimensions :: "int_matrix \<Rightarrow> nat \<Rightarrow> nat \<Rightarrow> bool" where
  "has_dimensions mat r c = (length mat = r \<and> list_all (\<lambda>row. length row = c) mat)"

text \<open>
  The recurrence of the matrix builder as the specification states it, on the words of
  the model: the boundary row and column add \<open>gap\<close> cumulatively, an inner cell is the
  maximum of its three predecessors with the score of the step added. It links the
  loops to the integers below and stands in no statement about the program.
\<close>

fun recurrence_cell :: "Scoring \<Rightarrow> string \<Rightarrow> string \<Rightarrow> nat \<Rightarrow> nat \<Rightarrow> c_int" where
  "recurrence_cell scr s1 s2 0 0 = 0"
| "recurrence_cell scr s1 s2 (Suc i) 0 = recurrence_cell scr s1 s2 i 0 + gap scr"
| "recurrence_cell scr s1 s2 0 (Suc j) = recurrence_cell scr s1 s2 0 j + gap scr"
| "recurrence_cell scr s1 s2 (Suc i) (Suc j) =
     std_max (recurrence_cell scr s1 s2 i j + (if s1 ! i = s2 ! j then match scr else mismatch scr))
       (std_max (recurrence_cell scr s1 s2 i (Suc j) + gap scr)
                (recurrence_cell scr s1 s2 (Suc i) j + gap scr))"

text \<open>
  The filling loops at row \<open>i\<close>, column \<open>j\<close>: the boundary, the rows above \<open>i\<close> and
  the cells of row \<open>i\<close> left of \<open>j\<close> hold the values of the recurrence.
\<close>

definition filled_upto :: "string \<Rightarrow> string \<Rightarrow> Scoring \<Rightarrow> nat \<Rightarrow> nat \<Rightarrow> int_matrix \<Rightarrow> bool" where
  "filled_upto s1 s2 scr i j mat =
     (has_dimensions mat (length s1 + 1) (length s2 + 1)
      \<and> (\<forall>i' j'. i' \<le> length s1 \<and> j' \<le> length s2
            \<and> (i' = 0 \<or> j' = 0 \<or> i' < i \<or> (i' = i \<and> j' < j))
          \<longrightarrow> cell mat i' j' = recurrence_cell scr s1 s2 i' j'))"

subsection \<open>Runs without overflow\<close>

text \<open>
  The recurrence over the mathematical integers, with the scores of the schema read as
  signed values: what the cells hold as long as no addition overflows.
\<close>

fun int_cell :: "Scoring \<Rightarrow> string \<Rightarrow> string \<Rightarrow> nat \<Rightarrow> nat \<Rightarrow> int" where
  "int_cell scr s1 s2 0 0 = 0"
| "int_cell scr s1 s2 (Suc i) 0 = int_cell scr s1 s2 i 0 + sint (gap scr)"
| "int_cell scr s1 s2 0 (Suc j) = int_cell scr s1 s2 0 j + sint (gap scr)"
| "int_cell scr s1 s2 (Suc i) (Suc j) =
     max (int_cell scr s1 s2 i j
            + (if s1 ! i = s2 ! j then sint (match scr) else sint (mismatch scr)))
       (max (int_cell scr s1 s2 i (Suc j) + sint (gap scr))
            (int_cell scr s1 s2 (Suc i) j + sint (gap scr)))"

text \<open>The range of a 32-bit signed integer.\<close>

definition fits_int :: "int \<Rightarrow> bool" where
  "fits_int x = (- (2 ^ 31) \<le> x \<and> x < 2 ^ 31)"

text \<open>
  No signed addition of the matrix construction overflows: every sum that the
  initialisation forms for the boundary cells \<open>(i + 1, 0)\<close> and \<open>(0, j + 1)\<close>, and each
  of the three sums that the fill forms for a cell \<open>(i + 1, j + 1)\<close>, is in range.
\<close>

definition no_overflow :: "string \<Rightarrow> string \<Rightarrow> Scoring \<Rightarrow> bool" where
  "no_overflow s1 s2 scr =
     (list_all (\<lambda>i. fits_int (int_cell scr s1 s2 i 0 + sint (gap scr))) [0..<length s1]
      \<and> list_all (\<lambda>j. fits_int (int_cell scr s1 s2 0 j + sint (gap scr))) [0..<length s2]
      \<and> list_all (\<lambda>i. list_all (\<lambda>j.
            fits_int (int_cell scr s1 s2 i j
                        + (if s1 ! i = s2 ! j then sint (match scr) else sint (mismatch scr)))
            \<and> fits_int (int_cell scr s1 s2 i (Suc j) + sint (gap scr))
            \<and> fits_int (int_cell scr s1 s2 (Suc i) j + sint (gap scr)))
          [0..<length s2]) [0..<length s1])"

subsection \<open>The traceback\<close>

text \<open>The three moves that the branches of the traceback loops perform on the state.\<close>

definition diag_move :: "string \<Rightarrow> string \<Rightarrow> tb_state \<Rightarrow> tb_state" where
  "diag_move s1 s2 st =
     (case st of (i, j, al1, al2) \<Rightarrow> (i - 1, j - 1, al1 @ [s1 ! (i - 1)], al2 @ [s2 ! (j - 1)]))"

definition left_move :: "string \<Rightarrow> tb_state \<Rightarrow> tb_state" where
  "left_move s1 st =
     (case st of (i, j, al1, al2) \<Rightarrow> (i - 1, j, al1 @ [s1 ! (i - 1)], al2 @ [gap_char]))"

definition up_move :: "string \<Rightarrow> tb_state \<Rightarrow> tb_state" where
  "up_move s2 st =
     (case st of (i, j, al1, al2) \<Rightarrow> (i, j - 1, al1 @ [gap_char], al2 @ [s2 ! (j - 1)]))"

text \<open>Removing every gap placeholder from a string.\<close>

definition remove_gaps :: "string \<Rightarrow> string" where
  "remove_gaps s = filter (\<lambda>c. c \<noteq> gap_char) s"

text \<open>No position of the two aligned strings holds the placeholder in both.\<close>

definition double_gap_free :: "Alignment \<Rightarrow> bool" where
  "double_gap_free al = ((gap_char, gap_char) \<notin> set (zip (seq1 al) (seq2 al)))"

text \<open>
  What the traceback loops keep true of their state: the cursor stays inside the
  sequences, the two strings grow together, and they hold, back to front, the part of
  each input behind the cursor with placeholders in between.
\<close>

definition tb_inv :: "string \<Rightarrow> string \<Rightarrow> tb_state \<Rightarrow> bool" where
  "tb_inv s1 s2 st =
     (case st of (i, j, al1, al2) \<Rightarrow>
        i \<le> length s1 \<and> j \<le> length s2 \<and> length al1 = length al2
        \<and> length s1 \<le> length al1 + i \<and> length s2 \<le> length al2 + j
        \<and> remove_gaps (rev al1) = remove_gaps (drop i s1)
        \<and> remove_gaps (rev al2) = remove_gaps (drop j s2)
        \<and> (gap_char \<in> set s1 \<or> gap_char \<in> set s2
             \<or> (gap_char, gap_char) \<notin> set (zip al1 al2)))"

subsection \<open>The score of an aligned pair\<close>


subsection \<open>Global alignments and their optimal score\<close>

text \<open>
  A global alignment of two sequences is a list of columns: a symbol of each sequence,
  a symbol of the first over a gap, or a gap over a symbol of the second. Read along
  the columns, the symbols of the first sequence give back the first sequence, those of
  the second the second.
\<close>

datatype column = Both char char | Only1 char | Only2 char

fun in_upper :: "column \<Rightarrow> string" where
  "in_upper (Both a b) = [a]"
| "in_upper (Only1 a) = [a]"
| "in_upper (Only2 b) = []"

fun in_lower :: "column \<Rightarrow> string" where
  "in_lower (Both a b) = [b]"
| "in_lower (Only1 a) = []"
| "in_lower (Only2 b) = [b]"

definition upper :: "column list \<Rightarrow> string" where
  "upper cs = concat (map in_upper cs)"

definition lower :: "column list \<Rightarrow> string" where
  "lower cs = concat (map in_lower cs)"

text \<open>
  Scores are summed as mathematical integers, each read off the schema as a signed
  value: the score of an alignment is not subject to the width of a machine word.
\<close>

fun column_score :: "Scoring \<Rightarrow> column \<Rightarrow> int" where
  "column_score scr (Both a b) = (if a = b then sint (match scr) else sint (mismatch scr))"
| "column_score scr (Only1 a) = sint (gap scr)"
| "column_score scr (Only2 b) = sint (gap scr)"

definition alignment_score :: "Scoring \<Rightarrow> column list \<Rightarrow> int" where
  "alignment_score scr cs = sum_list (map (column_score scr) cs)"

text \<open>All global alignments of two sequences, and the best score among them.\<close>

fun alignments :: "string \<Rightarrow> string \<Rightarrow> column list list" where
  "alignments [] [] = [[]]"
| "alignments (a # as) [] = map ((#) (Only1 a)) (alignments as [])"
| "alignments [] (b # bs) = map ((#) (Only2 b)) (alignments [] bs)"
| "alignments (a # as) (b # bs) =
     map ((#) (Both a b)) (alignments as bs)
     @ map ((#) (Only1 a)) (alignments as (b # bs))
     @ map ((#) (Only2 b)) (alignments (a # as) bs)"

definition optimal_score :: "Scoring \<Rightarrow> string \<Rightarrow> string \<Rightarrow> int" where
  "optimal_score scr a b = Max (set (map (alignment_score scr) (alignments a b)))"

text \<open>The largest magnitude among the three scores of a schema.\<close>

definition score_bound :: "Scoring \<Rightarrow> int" where
  "score_bound scr = max \<bar>sint (match scr)\<bar> (max \<bar>sint (mismatch scr)\<bar> \<bar>sint (gap scr)\<bar>)"

text \<open>
  \<open>v\<close> is the optimal score of \<open>a\<close> against \<open>b\<close>: some alignment of the two has
  score \<open>v\<close> and none has more.
\<close>

definition is_optimal :: "Scoring \<Rightarrow> string \<Rightarrow> string \<Rightarrow> int \<Rightarrow> bool" where
  "is_optimal scr a b v =
     ((\<exists>cs. upper cs = a \<and> lower cs = b \<and> alignment_score scr cs = v)
      \<and> (\<forall>cs. upper cs = a \<and> lower cs = b \<longrightarrow> alignment_score scr cs \<le> v))"

section \<open>The traceback loops\<close>

lemma int_ge_total:
  "\<not> (int_ge d u \<and> int_ge d l) \<Longrightarrow> \<not> (int_ge l u \<and> int_ge l d) \<Longrightarrow> int_ge u l \<and> int_ge u d"
  unfolding int_ge_def word_sle_eq by linarith

lemma traceback_step_moves:
  "traceback_step s1 s2 mat st = diag_move s1 s2 st
   \<or> traceback_step s1 s2 mat st = left_move s1 st
   \<or> traceback_step s1 s2 mat st = up_move s2 st"
proof (cases st)
  case (fields i j al1 al2)
  show ?thesis
    using int_ge_total [of "cell mat (i - 1) (j - 1)" "cell mat i (j - 1)" "cell mat (i - 1) j"]
    by (auto simp: fields traceback_step_def diag_move_def left_move_def up_move_def Let_def)
qed

text \<open>
  The loop ends from every state, and a property that the three moves keep holds at
  its end.
\<close>

lemma traceback_inv:
  assumes "P st"
    and "\<And>st. P st \<Longrightarrow> 0 < fst st \<Longrightarrow> 0 < fst (snd st) \<Longrightarrow>
           P (diag_move s1 s2 st) \<and> P (left_move s1 st) \<and> P (up_move s2 st)"
  shows "\<exists>st'. traceback s1 s2 mat st = Some st' \<and> P st' \<and> (fst st' = 0 \<or> fst (snd st') = 0)"
  using assms(1)
proof (induction "fst st + fst (snd st)" arbitrary: st rule: less_induct)
  case less
  show ?case
  proof (cases "0 < fst st \<and> 0 < fst (snd st)")
    case False
    then have "traceback s1 s2 mat st = Some st"
      by (subst traceback.simps) auto
    moreover have "fst st = 0 \<or> fst (snd st) = 0"
      using False by simp
    ultimately show ?thesis
      using less.prems by blast
  next
    case True
    let ?st = "traceback_step s1 s2 mat st"
    have moves: "?st = diag_move s1 s2 st \<or> ?st = left_move s1 st \<or> ?st = up_move s2 st"
      by (rule traceback_step_moves)
    have P: "P ?st"
      using moves assms(2) [OF less.prems] True by auto
    have dec: "fst ?st + fst (snd ?st) < fst st + fst (snd st)"
      using moves True
      by (cases st) (auto simp: diag_move_def left_move_def up_move_def)
    from less.hyps [OF dec P] show ?thesis
      using True by (subst traceback.simps) simp
  qed
qed

lemma copy_remaining1_inv:
  assumes "P st" and "\<And>st. P st \<Longrightarrow> 0 < fst st \<Longrightarrow> P (left_move s1 st)"
  shows "P (copy_remaining1 s1 st) \<and> fst (copy_remaining1 s1 st) = 0
         \<and> fst (snd (copy_remaining1 s1 st)) = fst (snd st)"
  using assms
proof (induction s1 st rule: copy_remaining1.induct)
  case (1 s1 i j al1 al2)
  show ?case
  proof (cases "0 < i")
    case True
    have "P (i - 1, j, al1 @ [s1 ! (i - 1)], al2 @ [gap_char])"
      using "1.prems"(2) [OF "1.prems"(1)] True by (simp add: left_move_def)
    from "1.IH" [OF True this "1.prems"(2)] True show ?thesis by simp
  next
    case False
    then show ?thesis using "1.prems" by simp
  qed
qed

lemma copy_remaining2_inv:
  assumes "P st" and "\<And>st. P st \<Longrightarrow> 0 < fst (snd st) \<Longrightarrow> P (up_move s2 st)"
  shows "P (copy_remaining2 s2 st) \<and> fst (snd (copy_remaining2 s2 st)) = 0
         \<and> fst (copy_remaining2 s2 st) = fst st"
  using assms
proof (induction s2 st rule: copy_remaining2.induct)
  case (1 s2 i j al1 al2)
  show ?case
  proof (cases "0 < j")
    case True
    have "P (i, j - 1, al1 @ [gap_char], al2 @ [s2 ! (j - 1)])"
      using "1.prems"(2) [OF "1.prems"(1)] True by (simp add: up_move_def)
    from "1.IH" [OF True this "1.prems"(2)] True show ?thesis by simp
  next
    case False
    then show ?thesis using "1.prems" by simp
  qed
qed

text \<open>
  The whole of \<^verbatim>\<open>alignment_algorithm\<close>: it returns, both cursors are at 0 when it does,
  and a property that the three moves keep holds of the strings it reverses.
\<close>

lemma alignment_algorithm_result:
  assumes init: "P (length s1, length s2, [], [])"
    and left: "\<And>st. P st \<Longrightarrow> 0 < fst st \<Longrightarrow> P (left_move s1 st)"
    and up: "\<And>st. P st \<Longrightarrow> 0 < fst (snd st) \<Longrightarrow> P (up_move s2 st)"
    and diag: "\<And>st. P st \<Longrightarrow> 0 < fst st \<Longrightarrow> 0 < fst (snd st) \<Longrightarrow> P (diag_move s1 s2 st)"
  shows "\<exists>al1 al2. P (0, 0, al1, al2) \<and>
           alignment_algorithm s1 s2 scr =
             Some \<lparr>seq1 = rev al1, seq2 = rev al2, score = filled_matrix s1 s2 scr\<rparr>"
proof -
  let ?mat = "filled_matrix s1 s2 scr"
  obtain st where st: "traceback s1 s2 ?mat (length s1, length s2, [], []) = Some st" "P st"
    using traceback_inv [of P, OF init] left up diag by blast
  let ?st1 = "copy_remaining1 s1 st"
  let ?st2 = "copy_remaining2 s2 ?st1"
  have st1: "P ?st1" "fst ?st1 = 0"
    using copy_remaining1_inv [of P, OF st(2) left] by simp_all
  have st2: "P ?st2" "fst (snd ?st2) = 0" "fst ?st2 = 0"
    using copy_remaining2_inv [of P, OF st1(1) up] st1(2) by simp_all
  obtain i j al1 al2 where fields: "?st2 = (i, j, al1, al2)"
    by (cases ?st2)
  with st2 have "P (0, 0, al1, al2)"
    by simp
  moreover have "alignment_algorithm s1 s2 scr =
      Some \<lparr>seq1 = rev al1, seq2 = rev al2, score = ?mat\<rparr>"
    using st(1) fields by (simp add: alignment_algorithm_def filled_matrix_def Let_def)
  ultimately show ?thesis by blast
qed

subsection \<open>The invariant of the traceback\<close>

lemma drop_pred:
  "0 < i \<Longrightarrow> i \<le> length s \<Longrightarrow> drop (i - Suc 0) s = s ! (i - Suc 0) # drop i s"
  using Cons_nth_drop_Suc [of "i - 1" s] by simp

lemma nth_pred_mem: "0 < i \<Longrightarrow> i \<le> length s \<Longrightarrow> s ! (i - Suc 0) \<in> set s"
  by (simp add: Suc_le_eq)

lemma tb_inv_initial: "tb_inv s1 s2 (length s1, length s2, [], [])"
  by (simp add: tb_inv_def remove_gaps_def)

lemma tb_inv_left_move:
  assumes "tb_inv s1 s2 st" "0 < fst st"
  shows "tb_inv s1 s2 (left_move s1 st)"
proof (cases st)
  case (fields i j al1 al2)
  with assms have i: "0 < i" "i \<le> length s1"
    by (simp_all add: tb_inv_def)
  show ?thesis
    using assms(1) nth_pred_mem [OF i] unfolding fields
    by (auto simp: tb_inv_def left_move_def remove_gaps_def drop_pred [OF i])
qed

lemma tb_inv_up_move:
  assumes "tb_inv s1 s2 st" "0 < fst (snd st)"
  shows "tb_inv s1 s2 (up_move s2 st)"
proof (cases st)
  case (fields i j al1 al2)
  with assms have j: "0 < j" "j \<le> length s2"
    by (simp_all add: tb_inv_def)
  show ?thesis
    using assms(1) nth_pred_mem [OF j] unfolding fields
    by (auto simp: tb_inv_def up_move_def remove_gaps_def drop_pred [OF j])
qed

lemma tb_inv_diag_move:
  assumes "tb_inv s1 s2 st" "0 < fst st" "0 < fst (snd st)"
  shows "tb_inv s1 s2 (diag_move s1 s2 st)"
proof (cases st)
  case (fields i j al1 al2)
  with assms have i: "0 < i" "i \<le> length s1" and j: "0 < j" "j \<le> length s2"
    by (simp_all add: tb_inv_def)
  show ?thesis
    using assms(1) nth_pred_mem [OF i] nth_pred_mem [OF j] unfolding fields
    by (auto simp: tb_inv_def diag_move_def remove_gaps_def drop_pred [OF i] drop_pred [OF j])
qed

lemma alignment_algorithm_tb_inv:
  "\<exists>al1 al2. tb_inv s1 s2 (0, 0, al1, al2) \<and>
     alignment_algorithm s1 s2 scr =
       Some \<lparr>seq1 = rev al1, seq2 = rev al2, score = filled_matrix s1 s2 scr\<rparr>"
  by (rule alignment_algorithm_result)
    (simp_all add: tb_inv_initial tb_inv_left_move tb_inv_up_move tb_inv_diag_move)

section \<open>The matrix\<close>

subsection \<open>Cells and dimensions\<close>

lemma has_dimensions_set_cell:
  assumes "has_dimensions mat r c"
  shows "has_dimensions (set_cell mat i j v) r c"
proof -
  have "length (mat[i := (mat ! i)[j := v]] ! k) = length (mat ! k)" if "k < length mat" for k
    using that by (cases "k = i") simp_all
  then show ?thesis
    using assms by (simp add: has_dimensions_def set_cell_def list_all_length)
qed

lemma cell_set_cell:
  "has_dimensions mat r c \<Longrightarrow> i < r \<Longrightarrow> j < c \<Longrightarrow>
   cell (set_cell mat i j v) i' j' = (if i' = i \<and> j' = j then v else cell mat i' j')"
  by (auto simp: has_dimensions_def set_cell_def cell_def list_all_length nth_list_update)

lemma has_dimensions_replicate:
  "has_dimensions (replicate r (replicate c v)) r c"
  by (simp add: has_dimensions_def list_all_length)

lemma cell_replicate: "i < r \<Longrightarrow> j < c \<Longrightarrow> cell (replicate r (replicate c v)) i j = v"
  by (simp add: cell_def)

lemma init_column_inv:
  assumes "has_dimensions mat (m + 1) (n + 1)" "0 < i"
    and "\<forall>k < i. cell mat k 0 = recurrence_cell scr s1 s2 k 0"
  shows "has_dimensions (init_column m scr i mat) (m + 1) (n + 1)
       \<and> (\<forall>k \<le> m. cell (init_column m scr i mat) k 0 = recurrence_cell scr s1 s2 k 0)
       \<and> (\<forall>k j. 0 < j \<longrightarrow> cell (init_column m scr i mat) k j = cell mat k j)"
  using assms
proof (induction m scr i mat rule: init_column.induct)
  case (1 m scr i mat)
  show ?case
  proof (cases "i \<le> m")
    case False
    then show ?thesis using "1.prems" by simp
  next
    case True
    let ?mat = "set_cell mat i 0 (cell mat (i - 1) 0 + gap scr)"
    have dims: "has_dimensions ?mat (m + 1) (n + 1)"
      by (rule has_dimensions_set_cell) (rule "1.prems")
    have get: "cell (set_cell mat i 0 v) k j = (if k = i \<and> j = 0 then v else cell mat k j)"
      for k j v
      using cell_set_cell [OF "1.prems"(1), of i 0] True by simp
    obtain i' where i': "i = Suc i'"
      using "1.prems"(2) by (cases i) auto
    have new: "cell mat (i - 1) 0 + gap scr = recurrence_cell scr s1 s2 i 0"
      using "1.prems"(3) by (simp add: i')
    have col: "\<forall>k < i + 1. cell ?mat k 0 = recurrence_cell scr s1 s2 k 0"
      using "1.prems"(3) new by (auto simp: get less_Suc_eq)
    have "0 < i + 1" by simp
    from "1.IH" [OF True dims this col] True show ?thesis
      by (simp add: get)
  qed
qed

lemma init_row_inv:
  assumes "has_dimensions mat (m + 1) (n + 1)" "0 < j"
    and "\<forall>k < j. cell mat 0 k = recurrence_cell scr s1 s2 0 k"
  shows "has_dimensions (init_row n scr j mat) (m + 1) (n + 1)
       \<and> (\<forall>k \<le> n. cell (init_row n scr j mat) 0 k = recurrence_cell scr s1 s2 0 k)
       \<and> (\<forall>i k. 0 < i \<longrightarrow> cell (init_row n scr j mat) i k = cell mat i k)"
  using assms
proof (induction n scr j mat rule: init_row.induct)
  case (1 n scr j mat)
  show ?case
  proof (cases "j \<le> n")
    case False
    then show ?thesis using "1.prems" by simp
  next
    case True
    let ?mat = "set_cell mat 0 j (cell mat 0 (j - 1) + gap scr)"
    have dims: "has_dimensions ?mat (m + 1) (n + 1)"
      by (rule has_dimensions_set_cell) (rule "1.prems")
    have get: "cell (set_cell mat 0 j v) i k = (if i = 0 \<and> k = j then v else cell mat i k)"
      for i k v
      using cell_set_cell [OF "1.prems"(1), of 0 j] True by simp
    obtain j' where j': "j = Suc j'"
      using "1.prems"(2) by (cases j) auto
    have new: "cell mat 0 (j - 1) + gap scr = recurrence_cell scr s1 s2 0 j"
      using "1.prems"(3) by (simp add: j')
    have row: "\<forall>k < j + 1. cell ?mat 0 k = recurrence_cell scr s1 s2 0 k"
      using "1.prems"(3) new by (auto simp: get less_Suc_eq)
    have "0 < j + 1" by simp
    from "1.IH" [OF True dims this row] True show ?thesis
      by (simp add: get)
  qed
qed

lemma generateAlignmentMatrix_cells:
  "has_dimensions (generateAlignmentMatrix m n scr) (m + 1) (n + 1)
   \<and> (\<forall>i \<le> m. cell (generateAlignmentMatrix m n scr) i 0 = recurrence_cell scr s1 s2 i 0)
   \<and> (\<forall>j \<le> n. cell (generateAlignmentMatrix m n scr) 0 j = recurrence_cell scr s1 s2 0 j)"
proof -
  let ?m0 = "replicate (m + 1) (replicate (n + 1) (0 :: c_int))"
  let ?m1 = "init_column m scr 1 ?m0"
  let ?m2 = "init_row n scr 1 ?m1"
  have d0: "has_dimensions ?m0 (m + 1) (n + 1)"
    by (rule has_dimensions_replicate)
  have c0: "\<forall>k < 1. cell ?m0 k 0 = recurrence_cell scr s1 s2 k 0"
    by (simp add: cell_def)
  have m1: "has_dimensions ?m1 (m + 1) (n + 1)"
      "\<forall>k \<le> m. cell ?m1 k 0 = recurrence_cell scr s1 s2 k 0"
    using init_column_inv [OF d0 _ c0] by simp_all
  have r1: "\<forall>k < 1. cell ?m1 0 k = recurrence_cell scr s1 s2 0 k"
    using m1(2) by simp
  have m2: "has_dimensions ?m2 (m + 1) (n + 1)"
      "\<forall>k \<le> n. cell ?m2 0 k = recurrence_cell scr s1 s2 0 k"
      "\<forall>i k. 0 < i \<longrightarrow> cell ?m2 i k = cell ?m1 i k"
    using init_row_inv [OF m1(1) _ r1] by simp_all
  have "cell ?m2 i 0 = recurrence_cell scr s1 s2 i 0" if "i \<le> m" for i
  proof (cases i)
    case 0
    then show ?thesis using m2(2) by simp
  next
    case (Suc i')
    then show ?thesis using m2(3) m1(2) that by simp
  qed
  then show ?thesis
    using m2 by (simp add: generateAlignmentMatrix_def Let_def)
qed

lemma filled_uptoI:
  assumes "has_dimensions mat (length s1 + 1) (length s2 + 1)"
    and "\<And>a b. a \<le> length s1 \<Longrightarrow> b \<le> length s2 \<Longrightarrow>
           a = 0 \<or> b = 0 \<or> a < i \<or> (a = i \<and> b < j) \<Longrightarrow>
           cell mat a b = recurrence_cell scr s1 s2 a b"
  shows "filled_upto s1 s2 scr i j mat"
  using assms unfolding filled_upto_def by blast

lemma filled_upto_initial:
  "filled_upto s1 s2 scr 1 1 (generateAlignmentMatrix (length s1) (length s2) scr)"
  using generateAlignmentMatrix_cells [of "length s1" "length s2" scr s1 s2]
  unfolding filled_upto_def by auto

lemma fill_row_inv:
  assumes "filled_upto s1 s2 scr i j mat" "0 < i" "i \<le> length s1" "0 < j"
  shows "filled_upto s1 s2 scr (i + 1) 1 (fill_row s1 s2 scr i j mat)"
  using assms
proof (induction s1 s2 scr i j mat rule: fill_row.induct)
  case (1 s1 s2 scr i j mat)
  note inv = "1.prems"(1)
  have dims: "has_dimensions mat (length s1 + 1) (length s2 + 1)"
    and known: "\<And>i' j'. i' \<le> length s1 \<Longrightarrow> j' \<le> length s2 \<Longrightarrow>
                  i' = 0 \<or> j' = 0 \<or> i' < i \<or> (i' = i \<and> j' < j) \<Longrightarrow>
                  cell mat i' j' = recurrence_cell scr s1 s2 i' j'"
    using inv unfolding filled_upto_def by auto
  show ?case
  proof (cases "j \<le> length s2")
    case False
    have "filled_upto s1 s2 scr (i + 1) 1 mat"
    proof (rule filled_uptoI [OF dims])
      fix a b
      assume ab: "a \<le> length s1" "b \<le> length s2"
        and "a = 0 \<or> b = 0 \<or> a < i + 1 \<or> (a = i + 1 \<and> b < 1)"
      then have "a = 0 \<or> b = 0 \<or> a < i \<or> (a = i \<and> b < j)"
        using False by auto
      then show "cell mat a b = recurrence_cell scr s1 s2 a b"
        by (rule known [OF ab])
    qed
    then show ?thesis using False by simp
  next
    case True
    obtain i' j' where ij: "i = Suc i'" "j = Suc j'"
      using "1.prems"(2,4) by (cases i; cases j) auto
    define v where "v = std_max
        (cell mat (i - 1) (j - 1) + (if s1 ! (i - 1) = s2 ! (j - 1) then match scr else mismatch scr))
        (std_max (cell mat (i - 1) j + gap scr) (cell mat i (j - 1) + gap scr))"
    have v: "v = recurrence_cell scr s1 s2 i j"
      using known [of i' j'] known [of i' j] known [of i j'] "1.prems"(3) True
      by (simp add: v_def ij)
    let ?mat = "set_cell mat i j v"
    have get: "cell (set_cell mat i j w) a b = (if a = i \<and> b = j then w else cell mat a b)"
      for a b w
      using cell_set_cell [OF dims, of i j] True "1.prems"(3) by simp
    have step: "filled_upto s1 s2 scr i (j + 1) ?mat"
    proof (rule filled_uptoI [OF has_dimensions_set_cell [OF dims]])
      fix a b
      assume ab: "a \<le> length s1" "b \<le> length s2"
        and "a = 0 \<or> b = 0 \<or> a < i \<or> (a = i \<and> b < j + 1)"
      then have "(a = i \<and> b = j) \<or> a = 0 \<or> b = 0 \<or> a < i \<or> (a = i \<and> b < j)"
        by auto
      then show "cell ?mat a b = recurrence_cell scr s1 s2 a b"
        using known [OF ab] v "1.prems"(2,4) by (auto simp: get)
    qed
    have "0 < j + 1" by simp
    from "1.IH" [OF True refl refl refl step [unfolded v_def] "1.prems"(2,3) this] True
    show ?thesis
      by (simp add: Let_def)
  qed
qed

lemma fill_matrix_inv:
  assumes "filled_upto s1 s2 scr i 1 mat" "0 < i" "i \<le> length s1 + 1"
  shows "filled_upto s1 s2 scr (length s1 + 1) 1 (fill_matrix s1 s2 scr i mat)"
  using assms
proof (induction s1 s2 scr i mat rule: fill_matrix.induct)
  case (1 s1 s2 scr i mat)
  show ?case
  proof (cases "i \<le> length s1")
    case False
    then have "i = length s1 + 1"
      using "1.prems"(3) by simp
    then show ?thesis using "1.prems"(1) by simp
  next
    case True
    have "filled_upto s1 s2 scr (i + 1) 1 (fill_row s1 s2 scr i 1 mat)"
      using fill_row_inv [OF "1.prems"(1,2) True] by simp
    from "1.IH" [OF True this] True show ?thesis
      by simp
  qed
qed

lemma filled_matrix_cells:
  "has_dimensions (filled_matrix s1 s2 scr) (length s1 + 1) (length s2 + 1)"
  "i \<le> length s1 \<Longrightarrow> j \<le> length s2 \<Longrightarrow>
     cell (filled_matrix s1 s2 scr) i j = recurrence_cell scr s1 s2 i j"
  using fill_matrix_inv [OF filled_upto_initial, of s1 s2 scr]
  unfolding filled_matrix_def filled_upto_def by auto

lemma alignment_algorithm_score:
  "\<exists>r. alignment_algorithm s1 s2 scr = Some r \<and> score r = filled_matrix s1 s2 scr"
  using alignment_algorithm_tb_inv [of s1 s2 scr] by auto

subsection \<open>Signed values without overflow\<close>

lemma sint_add_in_range:
  fixes a b :: c_int
  assumes "- (2 ^ 31) \<le> sint a + sint b" "sint a + sint b < 2 ^ 31"
  shows "sint (a + b) = sint a + sint b"
  using assms by (simp add: sint_word_ariths signed_take_bit_int_eq_self)

lemma sint_std_max: "sint (std_max a b) = max (sint a) (sint b)"
  by (simp add: std_max_def word_sless_alt max_def)

section \<open>Optimal alignment scores\<close>

lemma upper_simps [simp]:
  "upper [] = []" "upper (c # cs) = in_upper c @ upper cs" "upper (cs @ ds) = upper cs @ upper ds"
  by (simp_all add: upper_def)

lemma lower_simps [simp]:
  "lower [] = []" "lower (c # cs) = in_lower c @ lower cs" "lower (cs @ ds) = lower cs @ lower ds"
  by (simp_all add: lower_def)

lemma alignment_score_simps [simp]:
  "alignment_score scr [] = 0"
  "alignment_score scr (c # cs) = column_score scr c + alignment_score scr cs"
  "alignment_score scr (cs @ ds) = alignment_score scr cs + alignment_score scr ds"
  by (simp_all add: alignment_score_def)

lemma alignments_sound: "cs \<in> set (alignments a b) \<Longrightarrow> upper cs = a \<and> lower cs = b"
  by (induction a b arbitrary: cs rule: alignments.induct) auto

lemma alignments_complete: "cs \<in> set (alignments (upper cs) (lower cs))"
proof (induction cs)
  case Nil
  show ?case by simp
next
  case (Cons c cs)
  show ?case
  proof (cases c)
    case (Both x y)
    then show ?thesis using Cons by simp
  next
    case (Only1 x)
    then show ?thesis using Cons by (cases "lower cs") simp_all
  next
    case (Only2 y)
    then show ?thesis using Cons by (cases "upper cs") simp_all
  qed
qed

lemma set_alignments: "set (alignments a b) = {cs. upper cs = a \<and> lower cs = b}"
  using alignments_sound alignments_complete by blast

lemma is_optimal_score:
  assumes "is_optimal scr a b v"
  shows "optimal_score scr a b = v"
  unfolding optimal_score_def
proof (rule Max_eqI)
  show "finite (set (map (alignment_score scr) (alignments a b)))"
    by simp
  show "y \<le> v" if "y \<in> set (map (alignment_score scr) (alignments a b))" for y
    using that assms by (auto simp: is_optimal_def set_alignments)
  show "v \<in> set (map (alignment_score scr) (alignments a b))"
    using assms by (auto simp: is_optimal_def set_alignments)
qed

lemma column_score_bound: "\<bar>column_score scr c\<bar> \<le> score_bound scr"
  by (cases c) (auto simp: score_bound_def)

lemma score_bound_nonneg: "0 \<le> score_bound scr"
  by (simp add: score_bound_def)

lemma alignment_score_bound: "\<bar>alignment_score scr cs\<bar> \<le> int (length cs) * score_bound scr"
proof (induction cs)
  case Nil
  show ?case by simp
next
  case (Cons c cs)
  have "\<bar>alignment_score scr (c # cs)\<bar> \<le> \<bar>column_score scr c\<bar> + \<bar>alignment_score scr cs\<bar>"
    by simp
  also have "\<dots> \<le> score_bound scr + int (length cs) * score_bound scr"
    using column_score_bound [of scr c] Cons.IH by linarith
  finally show ?case by (simp add: algebra_simps)
qed

lemma length_alignment: "length cs \<le> length (upper cs) + length (lower cs)"
proof (induction cs)
  case Nil
  show ?case by simp
next
  case (Cons c cs)
  then show ?case by (cases c) simp_all
qed

lemma is_optimal_bound:
  assumes "is_optimal scr a b v"
  shows "\<bar>v\<bar> \<le> int (length a + length b) * score_bound scr"
proof -
  obtain cs where cs: "upper cs = a" "lower cs = b" "alignment_score scr cs = v"
    using assms unfolding is_optimal_def by blast
  have "\<bar>v\<bar> \<le> int (length cs) * score_bound scr"
    using alignment_score_bound [of scr cs] cs(3) by simp
  also have "\<dots> \<le> int (length a + length b) * score_bound scr"
    using length_alignment [of cs] cs(1,2) score_bound_nonneg [of scr]
    by (intro mult_right_mono) simp_all
  finally show ?thesis .
qed

lemma is_optimal_Nil: "is_optimal scr [] [] 0"
proof -
  have "alignment_score scr cs \<le> 0" if "upper cs = []" "lower cs = []" for cs
    using that length_alignment [of cs] by simp
  moreover have "upper [] = [] \<and> lower [] = [] \<and> alignment_score scr [] = 0"
    by simp
  ultimately show ?thesis
    unfolding is_optimal_def by blast
qed

lemma upper_snoc_cases:
  assumes "upper cs = a @ [x]" "lower cs = []"
  obtains cs' where "cs = cs' @ [Only1 x]" "upper cs' = a" "lower cs' = []"
proof (cases cs rule: rev_cases)
  case Nil
  then show ?thesis using assms by simp
next
  case (snoc cs' c)
  then show ?thesis using assms that by (cases c) auto
qed

lemma lower_snoc_cases:
  assumes "upper cs = []" "lower cs = b @ [y]"
  obtains cs' where "cs = cs' @ [Only2 y]" "upper cs' = []" "lower cs' = b"
proof (cases cs rule: rev_cases)
  case Nil
  then show ?thesis using assms by simp
next
  case (snoc cs' c)
  then show ?thesis using assms that by (cases c) auto
qed

lemma both_snoc_cases:
  assumes "upper cs = a @ [x]" "lower cs = b @ [y]"
  obtains cs' where "cs = cs' @ [Both x y]" "upper cs' = a" "lower cs' = b"
  | cs' where "cs = cs' @ [Only1 x]" "upper cs' = a" "lower cs' = b @ [y]"
  | cs' where "cs = cs' @ [Only2 y]" "upper cs' = a @ [x]" "lower cs' = b"
proof (cases cs rule: rev_cases)
  case Nil
  then show ?thesis using assms by simp
next
  case (snoc cs' c)
  then show ?thesis using assms that by (cases c) auto
qed

lemma is_optimal_upper_snoc:
  assumes "is_optimal scr a [] v"
  shows "is_optimal scr (a @ [x]) [] (v + sint (gap scr))"
proof -
  obtain cs where cs: "upper cs = a" "lower cs = []" "alignment_score scr cs = v"
    using assms unfolding is_optimal_def by blast
  have le: "\<And>cs. upper cs = a \<Longrightarrow> lower cs = [] \<Longrightarrow> alignment_score scr cs \<le> v"
    using assms unfolding is_optimal_def by blast
  have "upper (cs @ [Only1 x]) = a @ [x] \<and> lower (cs @ [Only1 x]) = []
        \<and> alignment_score scr (cs @ [Only1 x]) = v + sint (gap scr)"
    using cs by simp
  moreover have "alignment_score scr ds \<le> v + sint (gap scr)"
    if "upper ds = a @ [x]" "lower ds = []" for ds
    using that
  proof (cases rule: upper_snoc_cases)
    case (1 cs')
    then show ?thesis using le [of cs'] by simp
  qed
  ultimately show ?thesis
    unfolding is_optimal_def by blast
qed

lemma is_optimal_lower_snoc:
  assumes "is_optimal scr [] b v"
  shows "is_optimal scr [] (b @ [y]) (v + sint (gap scr))"
proof -
  obtain cs where cs: "upper cs = []" "lower cs = b" "alignment_score scr cs = v"
    using assms unfolding is_optimal_def by blast
  have le: "\<And>cs. upper cs = [] \<Longrightarrow> lower cs = b \<Longrightarrow> alignment_score scr cs \<le> v"
    using assms unfolding is_optimal_def by blast
  have "upper (cs @ [Only2 y]) = [] \<and> lower (cs @ [Only2 y]) = b @ [y]
        \<and> alignment_score scr (cs @ [Only2 y]) = v + sint (gap scr)"
    using cs by simp
  moreover have "alignment_score scr ds \<le> v + sint (gap scr)"
    if "upper ds = []" "lower ds = b @ [y]" for ds
    using that
  proof (cases rule: lower_snoc_cases)
    case (1 cs')
    then show ?thesis using le [of cs'] by simp
  qed
  ultimately show ?thesis
    unfolding is_optimal_def by blast
qed

lemma max3_cases:
  fixes p q r :: int
  shows "max p (max q r) = p \<or> max p (max q r) = q \<or> max p (max q r) = r"
  by (simp add: max_def)

lemma is_optimal_both_snoc:
  assumes d: "is_optimal scr a b vd"
    and u: "is_optimal scr a (b @ [y]) vu"
    and l: "is_optimal scr (a @ [x]) b vl"
  shows "is_optimal scr (a @ [x]) (b @ [y])
           (max (vd + column_score scr (Both x y)) (max (vu + sint (gap scr)) (vl + sint (gap scr))))"
    (is "is_optimal _ _ _ ?v")
proof -
  obtain cd where cd: "upper cd = a" "lower cd = b" "alignment_score scr cd = vd"
    using d unfolding is_optimal_def by blast
  obtain cu where cu: "upper cu = a" "lower cu = b @ [y]" "alignment_score scr cu = vu"
    using u unfolding is_optimal_def by blast
  obtain cl where cl: "upper cl = a @ [x]" "lower cl = b" "alignment_score scr cl = vl"
    using l unfolding is_optimal_def by blast
  have led: "\<And>cs. upper cs = a \<Longrightarrow> lower cs = b \<Longrightarrow> alignment_score scr cs \<le> vd"
    using d unfolding is_optimal_def by blast
  have leu: "\<And>cs. upper cs = a \<Longrightarrow> lower cs = b @ [y] \<Longrightarrow> alignment_score scr cs \<le> vu"
    using u unfolding is_optimal_def by blast
  have lel: "\<And>cs. upper cs = a @ [x] \<Longrightarrow> lower cs = b \<Longrightarrow> alignment_score scr cs \<le> vl"
    using l unfolding is_optimal_def by blast
  consider "?v = vd + column_score scr (Both x y)" | "?v = vu + sint (gap scr)"
    | "?v = vl + sint (gap scr)"
    using max3_cases [of "vd + column_score scr (Both x y)" "vu + sint (gap scr)"
        "vl + sint (gap scr)"]
    by blast
  then have "\<exists>cs. upper cs = a @ [x] \<and> lower cs = b @ [y] \<and> alignment_score scr cs = ?v"
  proof cases
    case 1
    have "upper (cd @ [Both x y]) = a @ [x] \<and> lower (cd @ [Both x y]) = b @ [y]
          \<and> alignment_score scr (cd @ [Both x y]) = ?v"
      unfolding 1 using cd by simp
    then show ?thesis by blast
  next
    case 2
    have "upper (cu @ [Only1 x]) = a @ [x] \<and> lower (cu @ [Only1 x]) = b @ [y]
          \<and> alignment_score scr (cu @ [Only1 x]) = ?v"
      unfolding 2 using cu by simp
    then show ?thesis by blast
  next
    case 3
    have "upper (cl @ [Only2 y]) = a @ [x] \<and> lower (cl @ [Only2 y]) = b @ [y]
          \<and> alignment_score scr (cl @ [Only2 y]) = ?v"
      unfolding 3 using cl by simp
    then show ?thesis by blast
  qed
  moreover have "alignment_score scr ds \<le> ?v"
    if "upper ds = a @ [x]" "lower ds = b @ [y]" for ds
    using that
  proof (cases rule: both_snoc_cases)
    case (1 cs')
    then show ?thesis using led [of cs'] by simp
  next
    case (2 cs')
    then show ?thesis using leu [of cs'] by simp
  next
    case (3 cs')
    then show ?thesis using lel [of cs'] by simp
  qed
  ultimately show ?thesis
    unfolding is_optimal_def by blast
qed

subsection \<open>The recurrence over the integers computes the optimal score\<close>

lemma sint_scores_bounded:
  "\<bar>sint (match scr)\<bar> \<le> score_bound scr"
  "\<bar>sint (mismatch scr)\<bar> \<le> score_bound scr"
  "\<bar>sint (gap scr)\<bar> \<le> score_bound scr"
  by (simp_all add: score_bound_def)

lemma int_cell_column: "int_cell scr s1 s2 i 0 = int i * sint (gap scr)"
  by (induction i) (simp_all add: algebra_simps)

lemma int_cell_row: "int_cell scr s1 s2 0 j = int j * sint (gap scr)"
  by (induction j) (simp_all add: algebra_simps)

lemma int_cell_optimal:
  "i \<le> length s1 \<Longrightarrow> j \<le> length s2 \<Longrightarrow>
   is_optimal scr (take i s1) (take j s2) (int_cell scr s1 s2 i j)"
proof (induction scr s1 s2 i j rule: int_cell.induct)
  case (1 scr s1 s2)
  show ?case by (simp add: is_optimal_Nil)
next
  case (2 scr s1 s2 i)
  then have "is_optimal scr (take i s1) [] (int_cell scr s1 s2 i 0)"
    by simp
  from is_optimal_upper_snoc [OF this, of "s1 ! i"] "2.prems" show ?case
    by (simp add: take_Suc_conv_app_nth)
next
  case (3 scr s1 s2 j)
  then have "is_optimal scr [] (take j s2) (int_cell scr s1 s2 0 j)"
    by simp
  from is_optimal_lower_snoc [OF this, of "s2 ! j"] "3.prems" show ?case
    by (simp add: take_Suc_conv_app_nth)
next
  case (4 scr s1 s2 i j)
  have i: "i < length s1" and j: "j < length s2"
    using "4.prems" by simp_all
  have optd: "is_optimal scr (take i s1) (take j s2) (int_cell scr s1 s2 i j)"
    using "4.IH"(1) "4.prems" by simp
  have optu: "is_optimal scr (take i s1) (take j s2 @ [s2 ! j]) (int_cell scr s1 s2 i (Suc j))"
    using "4.IH"(2) "4.prems" j by (simp add: take_Suc_conv_app_nth)
  have optl: "is_optimal scr (take i s1 @ [s1 ! i]) (take j s2) (int_cell scr s1 s2 (Suc i) j)"
    using "4.IH"(3) "4.prems" i by (simp add: take_Suc_conv_app_nth)
  from is_optimal_both_snoc [OF optd optu optl] i j show ?case
    by (simp add: take_Suc_conv_app_nth)
qed

lemma int_cell_bound:
  assumes "i \<le> length s1" "j \<le> length s2"
  shows "\<bar>int_cell scr s1 s2 i j\<bar> \<le> int (i + j) * score_bound scr"
  using is_optimal_bound [OF int_cell_optimal [OF assms, of scr]] assms by simp

lemma fits_int_bounded:
  assumes "int m * K < 2 ^ 31" "\<bar>x\<bar> \<le> int k * K" "\<bar>y\<bar> \<le> K" "Suc k \<le> m"
  shows "fits_int (x + y)"
proof -
  have "0 \<le> K" using assms(3) by linarith
  have "\<bar>x + y\<bar> \<le> int k * K + K"
    using assms(2,3) by linarith
  also have "\<dots> = int (Suc k) * K"
    by (simp add: algebra_simps)
  also have "\<dots> \<le> int m * K"
    using assms(4) \<open>0 \<le> K\<close> by (intro mult_right_mono) simp_all
  finally have "\<bar>x + y\<bar> < 2 ^ 31"
    using assms(1) by linarith
  then show ?thesis
    unfolding fits_int_def by linarith
qed

lemma score_bound_no_overflow:
  assumes bound: "int (length s1 + length s2) * score_bound scr < 2 ^ 31"
  shows "no_overflow s1 s2 scr"
proof -
  note gap = sint_scores_bounded(3) [of scr]
  have column: "fits_int (int_cell scr s1 s2 i 0 + sint (gap scr))" if "i < length s1" for i
  proof (rule fits_int_bounded [OF bound _ gap])
    show "\<bar>int_cell scr s1 s2 i 0\<bar> \<le> int i * score_bound scr"
      using int_cell_bound [of i s1 0 s2 scr] that by simp
    show "Suc i \<le> length s1 + length s2"
      using that by linarith
  qed
  have row: "fits_int (int_cell scr s1 s2 0 j + sint (gap scr))" if "j < length s2" for j
  proof (rule fits_int_bounded [OF bound _ gap])
    show "\<bar>int_cell scr s1 s2 0 j\<bar> \<le> int j * score_bound scr"
      using int_cell_bound [of 0 s1 j s2 scr] that by simp
    show "Suc j \<le> length s1 + length s2"
      using that by linarith
  qed
  have inner: "fits_int (int_cell scr s1 s2 i j
                     + (if s1 ! i = s2 ! j then sint (match scr) else sint (mismatch scr)))
      \<and> fits_int (int_cell scr s1 s2 i (Suc j) + sint (gap scr))
      \<and> fits_int (int_cell scr s1 s2 (Suc i) j + sint (gap scr))"
    if "i < length s1" "j < length s2" for i j
  proof (intro conjI)
    have s: "\<bar>if s1 ! i = s2 ! j then sint (match scr) else sint (mismatch scr)\<bar> \<le> score_bound scr"
      using sint_scores_bounded(1,2) [of scr] by simp
    show "fits_int (int_cell scr s1 s2 i j
                     + (if s1 ! i = s2 ! j then sint (match scr) else sint (mismatch scr)))"
    proof (rule fits_int_bounded [OF bound _ s])
      show "\<bar>int_cell scr s1 s2 i j\<bar> \<le> int (i + j) * score_bound scr"
        using int_cell_bound [of i s1 j s2 scr] that by simp
      show "Suc (i + j) \<le> length s1 + length s2"
        using that by linarith
    qed
    show "fits_int (int_cell scr s1 s2 i (Suc j) + sint (gap scr))"
    proof (rule fits_int_bounded [OF bound _ gap])
      show "\<bar>int_cell scr s1 s2 i (Suc j)\<bar> \<le> int (Suc (i + j)) * score_bound scr"
        using int_cell_bound [of i s1 "Suc j" s2 scr] that by simp
      show "Suc (Suc (i + j)) \<le> length s1 + length s2"
        using that by linarith
    qed
    show "fits_int (int_cell scr s1 s2 (Suc i) j + sint (gap scr))"
    proof (rule fits_int_bounded [OF bound _ gap])
      show "\<bar>int_cell scr s1 s2 (Suc i) j\<bar> \<le> int (Suc (i + j)) * score_bound scr"
        using int_cell_bound [of "Suc i" s1 j s2 scr] that by simp
      show "Suc (Suc (i + j)) \<le> length s1 + length s2"
        using that by linarith
    qed
  qed
  show ?thesis
    unfolding no_overflow_def list_all_iff using column row inner by simp
qed

section \<open>The cells in runs without overflow\<close>

lemma no_overflow_column:
  "no_overflow s1 s2 scr \<Longrightarrow> i < length s1 \<Longrightarrow> fits_int (int_cell scr s1 s2 i 0 + sint (gap scr))"
  by (simp add: no_overflow_def list_all_iff)

lemma no_overflow_row:
  "no_overflow s1 s2 scr \<Longrightarrow> j < length s2 \<Longrightarrow> fits_int (int_cell scr s1 s2 0 j + sint (gap scr))"
  by (simp add: no_overflow_def list_all_iff)

lemma no_overflow_inner:
  assumes "no_overflow s1 s2 scr" "i < length s1" "j < length s2"
  shows "fits_int (int_cell scr s1 s2 i j
                     + (if s1 ! i = s2 ! j then sint (match scr) else sint (mismatch scr)))"
    and "fits_int (int_cell scr s1 s2 i (Suc j) + sint (gap scr))"
    and "fits_int (int_cell scr s1 s2 (Suc i) j + sint (gap scr))"
  using assms by (simp_all add: no_overflow_def list_all_iff)

lemma sint_add_fits:
  fixes a b :: c_int
  shows "fits_int (sint a + sint b) \<Longrightarrow> sint (a + b) = sint a + sint b"
  by (simp add: fits_int_def sint_add_in_range)

lemma sint_recurrence_cell:
  assumes "no_overflow s1 s2 scr"
  shows "i \<le> length s1 \<Longrightarrow> j \<le> length s2 \<Longrightarrow>
         sint (recurrence_cell scr s1 s2 i j) = int_cell scr s1 s2 i j"
  using assms
proof (induction scr s1 s2 i j rule: recurrence_cell.induct)
  case (1 scr s1 s2)
  show ?case by simp
next
  case (2 scr s1 s2 i)
  have IH: "sint (recurrence_cell scr s1 s2 i 0) = int_cell scr s1 s2 i 0"
    using "2.IH" "2.prems" by simp
  have "fits_int (sint (recurrence_cell scr s1 s2 i 0) + sint (gap scr))"
    using no_overflow_column [OF "2.prems"(3), of i] "2.prems"(1) IH by simp
  then show ?case
    by (simp add: sint_add_fits IH)
next
  case (3 scr s1 s2 j)
  have IH: "sint (recurrence_cell scr s1 s2 0 j) = int_cell scr s1 s2 0 j"
    using "3.IH" "3.prems" by simp
  have "fits_int (sint (recurrence_cell scr s1 s2 0 j) + sint (gap scr))"
    using no_overflow_row [OF "3.prems"(3), of j] "3.prems"(2) IH by simp
  then show ?case
    by (simp add: sint_add_fits IH)
next
  case (4 scr s1 s2 i j)
  let ?d = "recurrence_cell scr s1 s2 i j"
  let ?u = "recurrence_cell scr s1 s2 i (Suc j)"
  let ?l = "recurrence_cell scr s1 s2 (Suc i) j"
  let ?s = "if s1 ! i = s2 ! j then match scr else mismatch scr"
  have i: "i < length s1" and j: "j < length s2"
    using "4.prems"(1,2) by simp_all
  have IHd: "sint ?d = int_cell scr s1 s2 i j"
    using "4.IH"(1) "4.prems" by simp
  have IHu: "sint ?u = int_cell scr s1 s2 i (Suc j)"
    using "4.IH"(2) "4.prems" by simp
  have IHl: "sint ?l = int_cell scr s1 s2 (Suc i) j"
    using "4.IH"(3) "4.prems" by simp
  have s: "sint ?s = (if s1 ! i = s2 ! j then sint (match scr) else sint (mismatch scr))"
    by simp
  have d: "sint (?d + ?s) = sint ?d + sint ?s"
    using no_overflow_inner(1) [OF "4.prems"(3) i j] IHd s
    by (intro sint_add_fits) simp
  have u: "sint (?u + gap scr) = sint ?u + sint (gap scr)"
    using no_overflow_inner(2) [OF "4.prems"(3) i j] IHu
    by (intro sint_add_fits) simp
  have l: "sint (?l + gap scr) = sint ?l + sint (gap scr)"
    using no_overflow_inner(3) [OF "4.prems"(3) i j] IHl
    by (intro sint_add_fits) simp
  show ?case
    using IHd IHu IHl by (simp add: sint_std_max d u l)
qed

lemma fits_int_multiple:
  assumes "fits_int (int m * g)" "i \<le> m"
  shows "fits_int (int i * g)"
proof (cases "0 \<le> g")
  case True
  have "int i * g \<le> int m * g"
    using assms(2) True by (intro mult_right_mono) simp_all
  moreover have "0 \<le> int i * g"
    using True by simp
  ultimately show ?thesis
    using assms(1) unfolding fits_int_def by linarith
next
  case False
  have "int m * g \<le> int i * g"
    using assms(2) False by (intro mult_right_mono_neg) simp_all
  moreover have "int i * g \<le> 0"
    using False by (simp add: mult_nonneg_nonpos)
  ultimately show ?thesis
    using assms(1) unfolding fits_int_def by linarith
qed

lemma sint_recurrence_column:
  "fits_int (int i * sint (gap scr)) \<Longrightarrow>
   sint (recurrence_cell scr s1 s2 i 0) = int i * sint (gap scr)"
proof (induction i)
  case 0
  show ?case by simp
next
  case (Suc i)
  have IH: "sint (recurrence_cell scr s1 s2 i 0) = int i * sint (gap scr)"
    using Suc.IH fits_int_multiple [OF Suc.prems, of i] by simp
  have "int i * sint (gap scr) + sint (gap scr) = int (Suc i) * sint (gap scr)"
    by (simp add: algebra_simps)
  then have "fits_int (sint (recurrence_cell scr s1 s2 i 0) + sint (gap scr))"
    using Suc.prems IH by simp
  then show ?case
    by (simp add: sint_add_fits IH algebra_simps)
qed

lemma sint_recurrence_row:
  "fits_int (int j * sint (gap scr)) \<Longrightarrow>
   sint (recurrence_cell scr s1 s2 0 j) = int j * sint (gap scr)"
proof (induction j)
  case 0
  show ?case by simp
next
  case (Suc j)
  have IH: "sint (recurrence_cell scr s1 s2 0 j) = int j * sint (gap scr)"
    using Suc.IH fits_int_multiple [OF Suc.prems, of j] by simp
  have "int j * sint (gap scr) + sint (gap scr) = int (Suc j) * sint (gap scr)"
    by (simp add: algebra_simps)
  then have "fits_int (sint (recurrence_cell scr s1 s2 0 j) + sint (gap scr))"
    using Suc.prems IH by simp
  then show ?case
    by (simp add: sint_add_fits IH algebra_simps)
qed

section \<open>The score of the returned alignment\<close>



section \<open>The claims about the traceback and the result\<close>

text \<open>
  Claim C5. For all input sequences and every scoring schema, \<^verbatim>\<open>alignment_algorithm\<close>
  returns two aligned sequences of the same length, and that length is at least the
  length of the longer input.
\<close>

theorem aligned_lengths:
  "\<exists>r. alignment_algorithm s1 s2 scr = Some r
       \<and> length (seq1 r) = length (seq2 r)
       \<and> max (length s1) (length s2) \<le> length (seq1 r)"
  using alignment_algorithm_tb_inv [of s1 s2 scr] by (auto simp: tb_inv_def)

text \<open>
  Claim C4, as amended. Removing every \<^verbatim>\<open>'-'\<close> from the first aligned sequence gives the
  first input with its own \<^verbatim>\<open>'-'\<close> characters removed, so it gives exactly the first
  input whenever that input holds no \<^verbatim>\<open>'-'\<close>; likewise for the second.
\<close>

theorem aligned_without_gaps:
  "\<exists>r. alignment_algorithm s1 s2 scr = Some r
       \<and> remove_gaps (seq1 r) = remove_gaps s1 \<and> remove_gaps (seq2 r) = remove_gaps s2
       \<and> (gap_char \<notin> set s1 \<longrightarrow> remove_gaps (seq1 r) = s1)
       \<and> (gap_char \<notin> set s2 \<longrightarrow> remove_gaps (seq2 r) = s2)"
proof -
  have keep: "gap_char \<notin> set s \<longrightarrow> remove_gaps s = s" for s
    by (auto simp: remove_gaps_def filter_id_conv)
  show ?thesis
    using alignment_algorithm_tb_inv [of s1 s2 scr] keep [of s1] keep [of s2]
    by (auto simp: tb_inv_def)
qed

text \<open>The amended claim C4 at the inputs \<^verbatim>\<open>"GA"\<close> and \<^verbatim>\<open>"A"\<close>.\<close>

theorem aligned_without_gaps_witness:
  "gap_char \<notin> set ''GA'' \<and> gap_char \<notin> set ''A''
   \<and> (\<exists>r. alignment_algorithm ''GA'' ''A'' default_scoring = Some r
          \<and> remove_gaps (seq1 r) = ''GA'' \<and> remove_gaps (seq2 r) = ''A'')"
  using aligned_without_gaps [of "''GA''" "''A''" default_scoring]
  by (auto simp: gap_char_def)

text \<open>
  Claim C4 as first stated fails for an input that holds the placeholder: with the
  inputs \<^verbatim>\<open>"-"\<close> and \<^verbatim>\<open>""\<close> the first aligned sequence is \<^verbatim>\<open>"-"\<close>, and removing the
  placeholders from it leaves the empty string, not the input.
\<close>

theorem aligned_without_gaps_counterexample:
  "map_option (remove_gaps \<circ> seq1) (alignment_algorithm ''-'' '''' default_scoring) = Some ''''
   \<and> map_option (remove_gaps \<circ> seq1) (alignment_algorithm ''-'' '''' default_scoring) \<noteq> Some ''-''"
  by code_simp

text \<open>
  Claim C10, as amended. For input sequences that hold no \<^verbatim>\<open>'-'\<close>, and every scoring
  schema, no position of the returned alignment has \<^verbatim>\<open>'-'\<close> in both aligned sequences:
  a step of the traceback at a cursor inside the sequences appends one character to each
  of the two strings, and at most one of the two is the placeholder.
\<close>

theorem no_double_gap:
  "gap_char \<notin> set s1 \<Longrightarrow> gap_char \<notin> set s2 \<Longrightarrow>
   (\<exists>r. alignment_algorithm s1 s2 scr = Some r \<and> double_gap_free r)
   \<and> (0 < i \<and> i \<le> length s1 \<and> 0 < j \<and> j \<le> length s2 \<longrightarrow>
        (\<exists>i' j' x y. traceback_step s1 s2 mat (i, j, al1, al2) = (i', j', al1 @ [x], al2 @ [y])
                       \<and> \<not> (x = gap_char \<and> y = gap_char)))"
proof -
  assume free: "gap_char \<notin> set s1" "gap_char \<notin> set s2"
  have "\<exists>r. alignment_algorithm s1 s2 scr = Some r \<and> double_gap_free r"
    using alignment_algorithm_tb_inv [of s1 s2 scr] free
    by (auto simp: tb_inv_def double_gap_free_def zip_rev)
  moreover have "\<exists>i' j' x y. traceback_step s1 s2 mat (i, j, al1, al2) = (i', j', al1 @ [x], al2 @ [y])
                       \<and> \<not> (x = gap_char \<and> y = gap_char)"
    if "0 < i" "i \<le> length s1" "0 < j" "j \<le> length s2"
  proof -
    have "s1 ! (i - Suc 0) \<noteq> gap_char" "s2 ! (j - Suc 0) \<noteq> gap_char"
      using nth_pred_mem [OF that(1,2)] nth_pred_mem [OF that(3,4)] free by auto
    then show ?thesis
      using traceback_step_moves [of s1 s2 mat "(i, j, al1, al2)"]
      by (auto simp: diag_move_def left_move_def up_move_def)
  qed
  ultimately show ?thesis
    by blast
qed

text \<open>
  The amended claim C10 at the inputs \<^verbatim>\<open>"GA"\<close> and \<^verbatim>\<open>"A"\<close>, and at the first step
  of their traceback.
\<close>

theorem no_double_gap_witness:
  "gap_char \<notin> set ''GA'' \<and> gap_char \<notin> set ''A''
   \<and> (\<exists>r. alignment_algorithm ''GA'' ''A'' default_scoring = Some r \<and> double_gap_free r)
   \<and> (0 :: nat) < 2 \<and> 2 \<le> length ''GA'' \<and> (0 :: nat) < 1 \<and> 1 \<le> length ''A''
   \<and> (\<exists>i' j' x y. traceback_step ''GA'' ''A'' [[0, 0], [0, 0], [0, 1]] (2, 1, [], [])
                       = (i', j', [x], [y])
                     \<and> \<not> (x = gap_char \<and> y = gap_char))"
  using no_double_gap [of "''GA''" "''A''" default_scoring 2 1 "[[0, 0], [0, 0], [0, 1]]" "[]" "[]"]
  by (simp add: gap_char_def)

text \<open>
  Claim C10 as first stated fails for inputs that hold the placeholder: with the inputs
  \<^verbatim>\<open>"-"\<close> and \<^verbatim>\<open>"-"\<close> the equal symbols are aligned diagonally, and position 0 has
  \<^verbatim>\<open>'-'\<close> in both aligned sequences.
\<close>

theorem no_double_gap_counterexample:
  "map_option double_gap_free (alignment_algorithm ''-'' ''-'' default_scoring) = Some False"
  by code_simp

text \<open>
  Claim C8. The default scoring schema is match 1, mismatch -1, gap 0; with it, the
  empty sequence against \<^verbatim>\<open>"ACGT"\<close> gives the aligned sequences \<^verbatim>\<open>"----"\<close> and
  \<^verbatim>\<open>"ACGT"\<close>, and the cell \<^verbatim>\<open>mat[0][4]\<close> is 0.
\<close>

theorem empty_against_ACGT:
  "default_scoring = \<lparr>match = 1, mismatch = - 1, gap = 0\<rparr>
   \<and> alignment_algorithm '''' ''ACGT'' default_scoring
       = Some \<lparr>seq1 = ''----'', seq2 = ''ACGT'', score = [[0, 0, 0, 0, 0]]\<rparr>
   \<and> cell [[0, 0, 0, 0, 0]] 0 4 = 0"
  by code_simp

text \<open>
  Claim C2. At a cursor \<open>(i, j)\<close> with \<open>i > 0\<close> and \<open>j > 0\<close>, equal symbols
  \<^verbatim>\<open>seq1[i-1]\<close> and \<^verbatim>\<open>seq2[j-1]\<close> make the loop body take the diagonal move: both
  symbols are appended and both indices go down by one, whatever the matrix holds. The
  scores of the neighbours matter only when the symbols differ.
\<close>

theorem equal_symbols_move_diagonally:
  "0 < i \<Longrightarrow> 0 < j \<Longrightarrow> s1 ! (i - 1) = s2 ! (j - 1) \<Longrightarrow>
   traceback_step s1 s2 mat (i, j, al1, al2)
     = (i - 1, j - 1, al1 @ [s1 ! (i - 1)], al2 @ [s2 ! (j - 1)])
   \<and> traceback s1 s2 mat (i, j, al1, al2)
     = traceback s1 s2 mat (i - 1, j - 1, al1 @ [s1 ! (i - 1)], al2 @ [s2 ! (j - 1)])"
  by (subst traceback.simps) (simp add: traceback_step_def)

text \<open>
  Claim C2 at the inputs \<^verbatim>\<open>"A"\<close> and \<^verbatim>\<open>"A"\<close> with match 1, mismatch -1, gap 1: both
  gap neighbours of the cursor \<open>(1, 1)\<close> are strictly above the diagonal one, and the
  move is diagonal.
\<close>

theorem equal_symbols_move_diagonally_witness:
  "(0 :: nat) < 1 \<and> ''A'' ! (1 - 1) = ''A'' ! (1 - 1)
   \<and> filled_matrix ''A'' ''A'' \<lparr>match = 1, mismatch = - 1, gap = 1\<rparr> = [[0, 1], [1, 2]]
   \<and> word_sless (cell [[0, 1], [1, 2]] 0 0) (cell [[0, 1], [1, 2]] 1 0)
   \<and> word_sless (cell [[0, 1], [1, 2]] 0 0) (cell [[0, 1], [1, 2]] 0 1)
   \<and> traceback_step ''A'' ''A'' [[0, 1], [1, 2]] (1, 1, [], []) = (0, 0, ''A'', ''A'')"
proof -
  have "filled_matrix ''A'' ''A'' \<lparr>match = 1, mismatch = - 1, gap = 1\<rparr> = [[0, 1], [1, 2]]"
    by code_simp
  moreover have "word_sless (cell [[0, 1], [1, 2]] 0 0) (cell [[0, 1], [1, 2]] 1 0)"
     "word_sless (cell [[0, 1], [1, 2]] 0 0) (cell [[0, 1], [1, 2]] 0 1)"
    by (simp_all add: cell_def word_sless_alt)
  ultimately show ?thesis
    using equal_symbols_move_diagonally [of 1 1 "''A''" "''A''" "[[0, 1], [1, 2]]" "[]" "[]"]
    by simp
qed

text \<open>
  Claim C7. \<^verbatim>\<open>alignment_algorithm\<close> returns a result for all input sequences and
  every scoring schema. In an iteration of the traceback loop with \<open>i > 0\<close> and
  \<open>j > 0\<close> exactly one of the three branches fires, whatever the matrix holds, and
  \<open>i + j\<close> goes down.
\<close>

theorem alignment_algorithm_total:
  "(\<exists>r. alignment_algorithm s1 s2 scr = Some r)
   \<and> (0 < i \<and> 0 < j \<longrightarrow>
        (let st = (i, j, al1, al2); st' = traceback_step s1 s2 mat st
         in ((st' = diag_move s1 s2 st \<and> st' \<noteq> left_move s1 st \<and> st' \<noteq> up_move s2 st)
             \<or> (st' \<noteq> diag_move s1 s2 st \<and> st' = left_move s1 st \<and> st' \<noteq> up_move s2 st)
             \<or> (st' \<noteq> diag_move s1 s2 st \<and> st' \<noteq> left_move s1 st \<and> st' = up_move s2 st))
            \<and> fst st' + fst (snd st') < i + j))"
proof -
  have "\<exists>r. alignment_algorithm s1 s2 scr = Some r"
    using alignment_algorithm_tb_inv [of s1 s2 scr] by blast
  moreover have "0 < i \<and> 0 < j \<longrightarrow>
        (let st = (i, j, al1, al2); st' = traceback_step s1 s2 mat st
         in ((st' = diag_move s1 s2 st \<and> st' \<noteq> left_move s1 st \<and> st' \<noteq> up_move s2 st)
             \<or> (st' \<noteq> diag_move s1 s2 st \<and> st' = left_move s1 st \<and> st' \<noteq> up_move s2 st)
             \<or> (st' \<noteq> diag_move s1 s2 st \<and> st' \<noteq> left_move s1 st \<and> st' = up_move s2 st))
            \<and> fst st' + fst (snd st') < i + j)"
    using traceback_step_moves [of s1 s2 mat "(i, j, al1, al2)"]
    by (auto simp: Let_def diag_move_def left_move_def up_move_def)
  ultimately show ?thesis by blast
qed

text \<open>Claim C7 at the inputs \<^verbatim>\<open>"GA"\<close> and \<^verbatim>\<open>"A"\<close>, at the cursor \<open>(2, 1)\<close>.\<close>

theorem alignment_algorithm_total_witness:
  "(\<exists>r. alignment_algorithm ''GA'' ''A'' default_scoring = Some r)
   \<and> (0 :: nat) < 2 \<and> (0 :: nat) < 1
   \<and> traceback_step ''GA'' ''A'' [[0, 0], [0, 0], [0, 1]] (2, 1, [], []) = diag_move ''GA'' ''A'' (2, 1, [], [])
   \<and> fst (traceback_step ''GA'' ''A'' [[0, 0], [0, 0], [0, 1]] (2, 1, [], []))
       + fst (snd (traceback_step ''GA'' ''A'' [[0, 0], [0, 0], [0, 1]] (2, 1, [], []))) < 2 + 1"
  using alignment_algorithm_total [of "''GA''" "''A''" default_scoring 2 1 "[]" "[]" "[[0, 0], [0, 0], [0, 1]]"]
  by (simp add: Let_def traceback_step_def diag_move_def)

section \<open>The claims about the matrix and the score\<close>

text \<open>
  Claim C6, as amended. For all lengths \<open>m\<close> and \<open>n\<close> and every scoring schema,
  \<^verbatim>\<open>generateAlignmentMatrix\<close> returns a matrix of \<open>m + 1\<close> rows and \<open>n + 1\<close> columns
  with \<^verbatim>\<open>mat[0][0] = 0\<close>. Where \<open>m * gap\<close> and \<open>n * gap\<close> are in the range of a 32-bit
  signed integer, so that no addition of the initialisation overflows,
  \<^verbatim>\<open>mat[i][0] = i * gap\<close> for \<open>1 \<le> i \<le> m\<close> and \<^verbatim>\<open>mat[0][j] = j * gap\<close> for
  \<open>1 \<le> j \<le> n\<close>. The matrix in the result of \<^verbatim>\<open>alignment_algorithm\<close> has the same
  shape, and the same boundary where no addition of its construction overflows.
\<close>

theorem boundary_cells:
  "has_dimensions (generateAlignmentMatrix m n scr) (m + 1) (n + 1)
   \<and> cell (generateAlignmentMatrix m n scr) 0 0 = 0
   \<and> (fits_int (int m * sint (gap scr)) \<and> fits_int (int n * sint (gap scr)) \<longrightarrow>
        (1 \<le> i \<and> i \<le> m \<longrightarrow>
           sint (cell (generateAlignmentMatrix m n scr) i 0) = int i * sint (gap scr))
        \<and> (1 \<le> j \<and> j \<le> n \<longrightarrow>
           sint (cell (generateAlignmentMatrix m n scr) 0 j) = int j * sint (gap scr)))
   \<and> (\<exists>r. alignment_algorithm s1 s2 scr = Some r
         \<and> has_dimensions (score r) (length s1 + 1) (length s2 + 1)
         \<and> (no_overflow s1 s2 scr \<longrightarrow>
              cell (score r) 0 0 = 0
              \<and> (1 \<le> i \<and> i \<le> length s1 \<longrightarrow>
                   sint (cell (score r) i 0) = int i * sint (gap scr))
              \<and> (1 \<le> j \<and> j \<le> length s2 \<longrightarrow>
                   sint (cell (score r) 0 j) = int j * sint (gap scr))))"
proof -
  let ?G = "generateAlignmentMatrix m n scr"
  have G: "has_dimensions ?G (m + 1) (n + 1)"
      "\<And>i. i \<le> m \<Longrightarrow> cell ?G i 0 = recurrence_cell scr [] [] i 0"
      "\<And>j. j \<le> n \<Longrightarrow> cell ?G 0 j = recurrence_cell scr [] [] 0 j"
    using generateAlignmentMatrix_cells [of m n scr "[]" "[]"] by simp_all
  have origin: "cell ?G 0 0 = 0"
    using G(2) [of 0] by simp
  have column: "sint (cell ?G i 0) = int i * sint (gap scr)"
    if "fits_int (int m * sint (gap scr))" "i \<le> m"
    using G(2) [OF that(2)] sint_recurrence_column [OF fits_int_multiple [OF that], of "[]" "[]"]
    by simp
  have row: "sint (cell ?G 0 j) = int j * sint (gap scr)"
    if "fits_int (int n * sint (gap scr))" "j \<le> n"
    using G(3) [OF that(2)] sint_recurrence_row [OF fits_int_multiple [OF that], of "[]" "[]"]
    by simp
  obtain r where r: "alignment_algorithm s1 s2 scr = Some r" "score r = filled_matrix s1 s2 scr"
    using alignment_algorithm_score by blast
  have dims: "has_dimensions (score r) (length s1 + 1) (length s2 + 1)"
    using filled_matrix_cells(1) [of s1 s2 scr] by (simp add: r(2))
  have rorigin: "cell (score r) 0 0 = 0"
    using filled_matrix_cells(2) [of 0 s1 0 s2 scr] by (simp add: r(2))
  have rcolumn: "sint (cell (score r) i 0) = int i * sint (gap scr)"
    if "no_overflow s1 s2 scr" "i \<le> length s1"
    using filled_matrix_cells(2) [of i s1 0 s2 scr] sint_recurrence_cell [OF that(1), of i 0] that(2)
    by (simp add: r(2) int_cell_column)
  have rrow: "sint (cell (score r) 0 j) = int j * sint (gap scr)"
    if "no_overflow s1 s2 scr" "j \<le> length s2"
    using filled_matrix_cells(2) [of 0 s1 j s2 scr] sint_recurrence_cell [OF that(1), of 0 j] that(2)
    by (simp add: r(2) int_cell_row)
  have result: "\<exists>r. alignment_algorithm s1 s2 scr = Some r
         \<and> has_dimensions (score r) (length s1 + 1) (length s2 + 1)
         \<and> (no_overflow s1 s2 scr \<longrightarrow>
              cell (score r) 0 0 = 0
              \<and> (1 \<le> i \<and> i \<le> length s1 \<longrightarrow>
                   sint (cell (score r) i 0) = int i * sint (gap scr))
              \<and> (1 \<le> j \<and> j \<le> length s2 \<longrightarrow>
                   sint (cell (score r) 0 j) = int j * sint (gap scr)))"
  proof (intro exI [of _ r] conjI impI)
    show "alignment_algorithm s1 s2 scr = Some r" by (rule r(1))
    show "has_dimensions (score r) (length s1 + 1) (length s2 + 1)" by (rule dims)
    show "cell (score r) 0 0 = 0" by (rule rorigin)
    show "sint (cell (score r) i 0) = int i * sint (gap scr)"
      if "no_overflow s1 s2 scr" "1 \<le> i \<and> i \<le> length s1"
      using that rcolumn by simp
    show "sint (cell (score r) 0 j) = int j * sint (gap scr)"
      if "no_overflow s1 s2 scr" "1 \<le> j \<and> j \<le> length s2"
      using that rrow by simp
  qed
  show ?thesis
  proof (intro conjI impI)
    show "has_dimensions ?G (m + 1) (n + 1)" by (rule G(1))
    show "cell ?G 0 0 = 0" by (rule origin)
    show "sint (cell ?G i 0) = int i * sint (gap scr)"
      if "fits_int (int m * sint (gap scr)) \<and> fits_int (int n * sint (gap scr))"
        "1 \<le> i \<and> i \<le> m"
      using that column by simp
    show "sint (cell ?G 0 j) = int j * sint (gap scr)"
      if "fits_int (int m * sint (gap scr)) \<and> fits_int (int n * sint (gap scr))"
        "1 \<le> j \<and> j \<le> n"
      using that row by simp
    show "\<exists>r. alignment_algorithm s1 s2 scr = Some r
         \<and> has_dimensions (score r) (length s1 + 1) (length s2 + 1)
         \<and> (no_overflow s1 s2 scr \<longrightarrow>
              cell (score r) 0 0 = 0
              \<and> (1 \<le> i \<and> i \<le> length s1 \<longrightarrow>
                   sint (cell (score r) i 0) = int i * sint (gap scr))
              \<and> (1 \<le> j \<and> j \<le> length s2 \<longrightarrow>
                   sint (cell (score r) 0 j) = int j * sint (gap scr)))"
      by (rule result)
  qed
qed

text \<open>
  The amended claim C6 for a matrix of 3 rows and 4 columns with gap -2, and for the
  inputs \<^verbatim>\<open>"GA"\<close> and \<^verbatim>\<open>"ACT"\<close>.
\<close>

theorem boundary_cells_witness:
  "has_dimensions (generateAlignmentMatrix 2 3 \<lparr>match = 1, mismatch = - 1, gap = - 2\<rparr>) 3 4
   \<and> cell (generateAlignmentMatrix 2 3 \<lparr>match = 1, mismatch = - 1, gap = - 2\<rparr>) 0 0 = 0
   \<and> fits_int (int 2 * sint (gap \<lparr>match = 1, mismatch = - 1, gap = - 2\<rparr>))
   \<and> fits_int (int 3 * sint (gap \<lparr>match = 1, mismatch = - 1, gap = - 2\<rparr>))
   \<and> (1 :: nat) \<le> 2 \<and> (1 :: nat) \<le> 3
   \<and> sint (cell (generateAlignmentMatrix 2 3 \<lparr>match = 1, mismatch = - 1, gap = - 2\<rparr>) 2 0) = - 4
   \<and> sint (cell (generateAlignmentMatrix 2 3 \<lparr>match = 1, mismatch = - 1, gap = - 2\<rparr>) 0 3) = - 6
   \<and> no_overflow ''GA'' ''ACT'' \<lparr>match = 1, mismatch = - 1, gap = - 2\<rparr>
   \<and> (\<exists>r. alignment_algorithm ''GA'' ''ACT'' \<lparr>match = 1, mismatch = - 1, gap = - 2\<rparr> = Some r
          \<and> has_dimensions (score r) (length ''GA'' + 1) (length ''ACT'' + 1)
          \<and> cell (score r) 0 0 = 0
          \<and> sint (cell (score r) 2 0) = - 4
          \<and> sint (cell (score r) 0 3) = - 6)"
proof -
  have fits: "fits_int (int 2 * sint (gap \<lparr>match = 1, mismatch = - 1, gap = - 2\<rparr>))"
      "fits_int (int 3 * sint (gap \<lparr>match = 1, mismatch = - 1, gap = - 2\<rparr>))"
    by (simp_all add: fits_int_def)
  have safe: "no_overflow ''GA'' ''ACT'' \<lparr>match = 1, mismatch = - 1, gap = - 2\<rparr>"
    by code_simp
  show ?thesis
    using boundary_cells [of 2 3 "\<lparr>match = 1, mismatch = - 1, gap = - 2\<rparr>" 2 3 "''GA''" "''ACT''"]
      fits safe
    by simp
qed

text \<open>
  Claim C6 as first stated, for every scoring schema, fails where a multiple of the gap
  score leaves the range of a 32-bit integer: with gap \<open>2^31 - 1\<close> the cell
  \<^verbatim>\<open>mat[2][0]\<close> of the model is -2, while \<open>2 * gap\<close> is \<open>2^32 - 2\<close>, which no cell can
  hold.
\<close>

theorem boundary_overflow_counterexample:
  "sint (cell (generateAlignmentMatrix 2 0 \<lparr>match = 1, mismatch = - 1, gap = 2147483647\<rparr>) 2 0) = - 2
   \<and> int 2 * sint (gap \<lparr>match = 1, mismatch = - 1, gap = 2147483647\<rparr>) = 4294967294"
  by code_simp

text \<open>
  Claim C1, as amended. For input sequences of lengths \<open>m\<close> and \<open>n\<close> and a scoring
  schema for which no signed addition of the matrix construction overflows, the matrix
  in the result has \<open>m + 1\<close> rows and \<open>n + 1\<close> columns and its cell \<open>(i, j)\<close>, for all
  \<open>i \<le> m\<close> and \<open>j \<le> n\<close>, is the optimal global alignment score of the length-\<open>i\<close>
  prefix of the first sequence against the length-\<open>j\<close> prefix of the second: the
  largest score among all global alignments of the two prefixes. In particular
  \<^verbatim>\<open>mat[m][n]\<close> is the optimal score of the two full sequences. No addition overflows
  whenever \<open>(m + n) * max (|match|, |mismatch|, |gap|) < 2^31\<close>.
\<close>

theorem matrix_holds_optimal_scores:
  "(no_overflow s1 s2 scr \<longrightarrow>
      (\<exists>r. alignment_algorithm s1 s2 scr = Some r
         \<and> has_dimensions (score r) (length s1 + 1) (length s2 + 1)
         \<and> (\<forall>i j. i \<le> length s1 \<and> j \<le> length s2 \<longrightarrow>
               sint (cell (score r) i j) = optimal_score scr (take i s1) (take j s2))
         \<and> sint (cell (score r) (length s1) (length s2)) = optimal_score scr s1 s2))
   \<and> (int (length s1 + length s2) * score_bound scr < 2 ^ 31 \<longrightarrow> no_overflow s1 s2 scr)"
proof (intro conjI impI)
  assume safe: "no_overflow s1 s2 scr"
  obtain r where r: "alignment_algorithm s1 s2 scr = Some r" "score r = filled_matrix s1 s2 scr"
    using alignment_algorithm_score by blast
  have dims: "has_dimensions (score r) (length s1 + 1) (length s2 + 1)"
    using filled_matrix_cells(1) [of s1 s2 scr] by (simp add: r(2))
  have cells: "sint (cell (score r) i j) = optimal_score scr (take i s1) (take j s2)"
    if "i \<le> length s1" "j \<le> length s2" for i j
    using is_optimal_score [OF int_cell_optimal [OF that, of scr]]
      sint_recurrence_cell [OF safe that] filled_matrix_cells(2) [OF that, of scr]
    by (simp add: r(2))
  have corner: "sint (cell (score r) (length s1) (length s2)) = optimal_score scr s1 s2"
    using cells [of "length s1" "length s2"] by simp
  show "\<exists>r. alignment_algorithm s1 s2 scr = Some r
         \<and> has_dimensions (score r) (length s1 + 1) (length s2 + 1)
         \<and> (\<forall>i j. i \<le> length s1 \<and> j \<le> length s2 \<longrightarrow>
               sint (cell (score r) i j) = optimal_score scr (take i s1) (take j s2))
         \<and> sint (cell (score r) (length s1) (length s2)) = optimal_score scr s1 s2"
  proof (intro exI [of _ r] conjI allI impI)
    show "alignment_algorithm s1 s2 scr = Some r" by (rule r(1))
    show "has_dimensions (score r) (length s1 + 1) (length s2 + 1)" by (rule dims)
    show "sint (cell (score r) i j) = optimal_score scr (take i s1) (take j s2)"
      if "i \<le> length s1 \<and> j \<le> length s2" for i j
      using that cells by simp
    show "sint (cell (score r) (length s1) (length s2)) = optimal_score scr s1 s2"
      by (rule corner)
  qed
next
  assume "int (length s1 + length s2) * score_bound scr < 2 ^ 31"
  then show "no_overflow s1 s2 scr"
    by (rule score_bound_no_overflow)
qed

text \<open>
  The amended claim C1 at the inputs \<^verbatim>\<open>"GA"\<close> and \<^verbatim>\<open>"A"\<close> with the default schema,
  and at \<^verbatim>\<open>"A"\<close> against \<^verbatim>\<open>"A"\<close> with match \<open>2^31 - 1\<close>, where nothing overflows
  although the scores are as large as they can be.
\<close>

theorem matrix_holds_optimal_scores_witness:
  "no_overflow ''GA'' ''A'' default_scoring
   \<and> int (length ''GA'' + length ''A'') * score_bound default_scoring < 2 ^ 31
   \<and> (\<exists>r. alignment_algorithm ''GA'' ''A'' default_scoring = Some r
          \<and> sint (cell (score r) 1 1) = optimal_score default_scoring ''G'' ''A''
          \<and> sint (cell (score r) 2 1) = optimal_score default_scoring ''GA'' ''A'')
   \<and> optimal_score default_scoring ''G'' ''A'' = 0
   \<and> optimal_score default_scoring ''GA'' ''A'' = 1
   \<and> no_overflow ''A'' ''A'' \<lparr>match = 2147483647, mismatch = - 1, gap = 0\<rparr>
   \<and> (\<exists>r. alignment_algorithm ''A'' ''A'' \<lparr>match = 2147483647, mismatch = - 1, gap = 0\<rparr> = Some r
          \<and> sint (cell (score r) 1 1)
              = optimal_score \<lparr>match = 2147483647, mismatch = - 1, gap = 0\<rparr> ''A'' ''A'')
   \<and> optimal_score \<lparr>match = 2147483647, mismatch = - 1, gap = 0\<rparr> ''A'' ''A'' = 2147483647"
proof -
  let ?big = "\<lparr>match = 2147483647, mismatch = - 1, gap = 0\<rparr> :: Scoring"
  have bound: "int (length ''GA'' + length ''A'') * score_bound default_scoring < 2 ^ 31"
    by (simp add: score_bound_def default_scoring_def)
  have safe: "no_overflow ''GA'' ''A'' default_scoring"
    using matrix_holds_optimal_scores [of "''GA''" "''A''" default_scoring] bound by blast
  have opt: "optimal_score default_scoring ''G'' ''A'' = 0"
      "optimal_score default_scoring ''GA'' ''A'' = 1"
      "optimal_score ?big ''A'' ''A'' = 2147483647"
    by code_simp+
  obtain r where r: "alignment_algorithm ''GA'' ''A'' default_scoring = Some r"
      and cells: "\<forall>i j. i \<le> length ''GA'' \<and> j \<le> length ''A'' \<longrightarrow>
         sint (cell (score r) i j) = optimal_score default_scoring (take i ''GA'') (take j ''A'')"
    using matrix_holds_optimal_scores [of "''GA''" "''A''" default_scoring] safe by blast
  have c11: "sint (cell (score r) 1 1) = optimal_score default_scoring ''G'' ''A''"
    using cells [rule_format, of 1 1] by simp
  have c21: "sint (cell (score r) 2 1) = optimal_score default_scoring ''GA'' ''A''"
    using cells [rule_format, of 2 1] by simp
  have first: "\<exists>r. alignment_algorithm ''GA'' ''A'' default_scoring = Some r
          \<and> sint (cell (score r) 1 1) = optimal_score default_scoring ''G'' ''A''
          \<and> sint (cell (score r) 2 1) = optimal_score default_scoring ''GA'' ''A''"
    using r c11 c21 by blast
  have bigsafe: "no_overflow ''A'' ''A'' ?big"
    by code_simp
  obtain r' where r': "alignment_algorithm ''A'' ''A'' ?big = Some r'"
      and corner: "sint (cell (score r') (length ''A'') (length ''A'')) = optimal_score ?big ''A'' ''A''"
    using matrix_holds_optimal_scores [of "''A''" "''A''" ?big] bigsafe by blast
  have second: "\<exists>r. alignment_algorithm ''A'' ''A'' ?big = Some r
          \<and> sint (cell (score r) 1 1) = optimal_score ?big ''A'' ''A''"
    using r' corner by auto
  show ?thesis
    using safe bound first opt bigsafe second by simp
qed

text \<open>
  Claim C1 as first stated, for every scoring schema, fails where a score leaves the
  range of a 32-bit integer. With match 2 and gap \<open>2^30 - 1\<close> the best alignment of
  \<^verbatim>\<open>"AA"\<close> against \<^verbatim>\<open>"AA"\<close> is the one of four gaps, of score \<open>2^32 - 4\<close>, which no
  cell can hold. The cell \<^verbatim>\<open>mat[2][2]\<close> is \<open>- 2^31\<close>: each of its three candidates is
  \<open>2^31\<close> before it wraps around. That is not even the largest of the alignments' scores
  after each is reduced to 32 bits, which is 4.
\<close>

theorem matrix_overflow_counterexample:
  "alignment_algorithm ''AA'' ''AA'' \<lparr>match = 2, mismatch = 0, gap = 1073741823\<rparr>
     = Some \<lparr>seq1 = ''AA'', seq2 = ''AA'',
             score = [[0, 1073741823, 2147483646],
                      [1073741823, 2147483646, 1073741825],
                      [2147483646, 1073741825, 2147483648]]\<rparr>
   \<and> sint (cell [[0, 1073741823, 2147483646],
                  [1073741823, 2147483646, 1073741825],
                  [2147483646, 1073741825, 2147483648]] 2 2) = - 2147483648
   \<and> optimal_score \<lparr>match = 2, mismatch = 0, gap = 1073741823\<rparr> ''AA'' ''AA'' = 4294967292
   \<and> Max (set (map (sint \<circ> (word_of_int :: int \<Rightarrow> c_int)
                      \<circ> alignment_score \<lparr>match = 2, mismatch = 0, gap = 1073741823\<rparr>)
                 (alignments ''AA'' ''AA''))) = 4"
  by code_simp



end
